theory Spec2Isabelle
  imports Main "HOL-Library.Sublist" "HOL-Library.Char_ord" "HOL-Library.List_Lexorder"
    "HOL-Library.Multiset"
begin

section \<open>Data model of cmd/disfunc/main.go\<close>

text \<open>
  Go strings are byte sequences; they are modelled as \<^typ>\<open>string\<close>, whose characters are
  8-bit. Go's \<open>int\<close> is 64 bits wide on the platforms the tool supports; it is modelled as
  \<^typ>\<open>int\<close>, and the only producers of integers (\<open>strconv.Atoi\<close>, \<open>strconv.ParseInt\<close>)
  check the 64-bit range themselves.

  \<open>type disamLine struct\<close> and \<open>type disasmSym struct\<close>. Both structs have a field
  \<open>file\<close>, a reserved word of the theory language: the selectors are \<open>file_l\<close> (of a
  line) and \<open>file_s\<close> (of a symbol); \<open>alias\<close> is reserved too and becomes \<open>alias_l\<close>.
  The slices of pointers \<open>[]*disamLine\<close> and \<open>[]*disasmSym\<close> are lists of records: every
  pointer is created by a fresh \<open>&disamLine{...}\<close> or \<open>&disasmSym{...}\<close>, so distinct list
  positions never alias during parsing and resolving.
\<close>

record disamLine =
  file_l :: string
  srcLine :: int
  binOffset :: int
  asm :: string
  decoded :: string
  instr :: string
  arg :: string
  alias_l :: string

record disasmSym =
  file_s :: string
  symbol :: string
  content :: "disamLine list"

section \<open>Outcomes\<close>

text \<open>
  A call of the program ends in one of three ways: it returns a value, it returns a non-nil
  \<open>error\<close>, or it panics at run time (a slice or index expression out of range), which
  aborts the process. The latter two are the left injections of a sum:
  \<open>Panic\<close> is the run-time panic, \<open>ErrorDecoding l\<close> is
  \<open>fmt.Errorf("error decoding %q", l)\<close>, and \<open>NumError fn num e\<close> is the
  \<open>*strconv.NumError{Func: fn, Num: num, Err: e}\<close> of package strconv.
\<close>

datatype numerr = ErrSyntax | ErrRange

datatype failure = Panic | ErrorDecoding string | NumError string string numerr

definition bind_r :: "failure + 'a \<Rightarrow> ('a \<Rightarrow> failure + 'b) \<Rightarrow> failure + 'b" where
  "bind_r x f = (case x of Inl e \<Rightarrow> Inl e | Inr v \<Rightarrow> f v)"

section \<open>The standard library functions the parser calls\<close>

subsection \<open>Package strings and slice expressions\<close>

text \<open>\<open>strings.Split(s, "\n")\<close>: the pieces between line feeds; \<open>n\<close> line feeds give
  \<open>n + 1\<close> pieces, the empty string gives one empty piece.\<close>

fun strings_Split_nl :: "string \<Rightarrow> string list" where
  "strings_Split_nl [] = [[]]"
| "strings_Split_nl (c # cs) =
     (if c = CHR 0x0A then [] # strings_Split_nl cs
      else (case strings_Split_nl cs of
              [] \<Rightarrow> [[c]]
            | l # ls \<Rightarrow> (c # l) # ls))"

text \<open>\<open>strings.HasPrefix(s, p)\<close>.\<close>

definition strings_HasPrefix :: "string \<Rightarrow> string \<Rightarrow> bool" where
  "strings_HasPrefix s p = (take (length p) s = p)"

text \<open>\<open>strings.IndexByte(s, c)\<close>: the index of the first \<open>c\<close> in \<open>s\<close>, or \<open>-1\<close>.\<close>

definition strings_IndexByte :: "string \<Rightarrow> char \<Rightarrow> int" where
  "strings_IndexByte s c =
     (if c \<in> set s then int (length (takeWhile (\<lambda>x. x \<noteq> c) s)) else - 1)"

text \<open>\<open>strings.SplitN(s, " ", 2)\<close>: one piece when \<open>s\<close> has no space, else the text before
  the first space and the text after it.\<close>

definition strings_SplitN_sp2 :: "string \<Rightarrow> string list" where
  "strings_SplitN_sp2 s =
     (if CHR '' '' \<in> set s
      then [takeWhile (\<lambda>x. x \<noteq> CHR '' '') s, tl (dropWhile (\<lambda>x. x \<noteq> CHR '' '') s)]
      else [s])"

text \<open>The slice expression \<open>s[lo:hi]\<close> on a string: it panics unless
  \<open>0 \<le> lo \<le> hi \<le> len(s)\<close>. \<open>s[lo:]\<close> is \<open>s[lo:len(s)]\<close> and \<open>s[:hi]\<close> is \<open>s[0:hi]\<close>.\<close>

definition slice :: "string \<Rightarrow> int \<Rightarrow> int \<Rightarrow> failure + string" where
  "slice s lo hi =
     (if 0 \<le> lo \<and> lo \<le> hi \<and> hi \<le> int (length s)
      then Inr (take (nat (hi - lo)) (drop (nat lo) s))
      else Inl Panic)"

definition slice_from :: "string \<Rightarrow> int \<Rightarrow> failure + string" where
  "slice_from s lo = slice s lo (int (length s))"

definition slice_to :: "string \<Rightarrow> int \<Rightarrow> failure + string" where
  "slice_to s hi = slice s 0 hi"

text \<open>
  \<open>strings.TrimSpace(s)\<close> removes leading and trailing white space as defined by Unicode.
  On the bytes of the string these are the six ASCII characters tab, line feed, vertical
  tab, form feed, carriage return and space, and the UTF-8 encodings of U+0085, U+00A0,
  U+1680, U+2000 to U+200A, U+2028, U+2029, U+202F, U+205F and U+3000. A leading rune is
  white space exactly when the string starts with one of these encodings, and a trailing
  rune exactly when the string ends with one.
\<close>

definition spaceRunes :: "string list" where
  "spaceRunes =
     [[CHR 0x09], [CHR 0x0A], [CHR 0x0B], [CHR 0x0C], [CHR 0x0D], [CHR 0x20],
      [CHR 0xC2, CHR 0x85], [CHR 0xC2, CHR 0xA0],
      [CHR 0xE1, CHR 0x9A, CHR 0x80],
      [CHR 0xE2, CHR 0x80, CHR 0x80], [CHR 0xE2, CHR 0x80, CHR 0x81],
      [CHR 0xE2, CHR 0x80, CHR 0x82], [CHR 0xE2, CHR 0x80, CHR 0x83],
      [CHR 0xE2, CHR 0x80, CHR 0x84], [CHR 0xE2, CHR 0x80, CHR 0x85],
      [CHR 0xE2, CHR 0x80, CHR 0x86], [CHR 0xE2, CHR 0x80, CHR 0x87],
      [CHR 0xE2, CHR 0x80, CHR 0x88], [CHR 0xE2, CHR 0x80, CHR 0x89],
      [CHR 0xE2, CHR 0x80, CHR 0x8A],
      [CHR 0xE2, CHR 0x80, CHR 0xA8], [CHR 0xE2, CHR 0x80, CHR 0xA9],
      [CHR 0xE2, CHR 0x80, CHR 0xAF],
      [CHR 0xE2, CHR 0x81, CHR 0x9F],
      [CHR 0xE3, CHR 0x80, CHR 0x80]]"

text \<open>The number of bytes of the rune from \<open>runes\<close> that \<open>s\<close> starts with, 0 if there is
  none.\<close>

definition leadLen :: "string list \<Rightarrow> string \<Rightarrow> nat" where
  "leadLen runes s =
     (case filter (\<lambda>t. t \<noteq> [] \<and> take (length t) s = t) runes of
        [] \<Rightarrow> 0
      | t # _ \<Rightarrow> length t)"

function trimRunes :: "string list \<Rightarrow> string \<Rightarrow> string" where
  "trimRunes runes s =
     (if leadLen runes s = 0 then s else trimRunes runes (drop (leadLen runes s) s))"
  by pat_completeness auto
termination
proof (relation "measure (\<lambda>(runes, s). length s)")
  show "wf (measure (\<lambda>(runes, s). length s))" by simp
next
  fix runes :: "string list" and s :: string
  assume n: "leadLen runes s \<noteq> 0"
  have "s \<noteq> []"
  proof
    assume "s = []"
    then have "filter (\<lambda>t. t \<noteq> [] \<and> take (length t) s = t) runes = []"
      by (auto simp: filter_empty_conv)
    with n show False by (simp add: leadLen_def)
  qed
  with n show "((runes, drop (leadLen runes s) s), (runes, s)) \<in> measure (\<lambda>(runes, s). length s)"
    by simp
qed

declare trimRunes.simps [simp del]

definition strings_TrimSpace :: "string \<Rightarrow> string" where
  "strings_TrimSpace s = rev (trimRunes (map rev spaceRunes) (rev (trimRunes spaceRunes s)))"

subsection \<open>Package strconv\<close>

text \<open>\<open>func lower(c byte) byte { return c | ('x' - 'X') }\<close>; the result is the value of the
  byte.\<close>

definition lower :: "char \<Rightarrow> nat" where
  "lower c = or (of_char c) 0x20"

text \<open>\<open>maxUint64 = 1<<64 - 1\<close>.\<close>

definition maxUint64 :: nat where
  "maxUint64 = 18446744073709551615"

text \<open>
  The digit loop of \<open>strconv.ParseUint\<close> with \<open>bitSize = 64\<close>. \<open>digitVal\<close> is the \<open>switch\<close>
  that turns a byte into the digit \<open>d\<close> (\<open>None\<close>: the \<open>default\<close> branch, a syntax error).
  \<open>accumulate\<close> is the rest of the body: \<open>d >= byte(base)\<close> is a syntax error,
  \<open>n >= cutoff\<close> with \<open>cutoff = maxUint64/base + 1\<close> is a range error, and so is
  an \<open>n1 = n*base + d\<close> that wraps around (the addition is on \<open>uint64\<close>) or exceeds
  \<open>maxVal = 1<<64 - 1\<close>.
\<close>

definition digitVal :: "char \<Rightarrow> nat option" where
  "digitVal c =
     (if CHR ''0'' \<le> c \<and> c \<le> CHR ''9'' then Some (of_char c - of_char CHR ''0'')
      else if of_char CHR ''a'' \<le> lower c \<and> lower c \<le> of_char CHR ''z''
        then Some (lower c - of_char CHR ''a'' + 10)
      else None)"

definition accumulate :: "nat \<Rightarrow> nat \<Rightarrow> nat \<Rightarrow> numerr + nat" where
  "accumulate base n d =
     (if d \<ge> base then Inl ErrSyntax
      else if n \<ge> maxUint64 div base + 1 then Inl ErrRange
      else
        let n' = n * base;
            n1 = (n' + d) mod (maxUint64 + 1)
        in if n1 < n' \<or> n1 > maxUint64 then Inl ErrRange else Inr n1)"

text \<open>The loop \<open>for _, c := range []byte(s)\<close>: \<open>n\<close> is the value so far, \<open>us\<close> the flag
  \<open>underscores\<close>; an underscore is skipped when \<open>base0\<close> holds. The loop returns at the
  first error.\<close>

fun digitLoop :: "nat \<Rightarrow> bool \<Rightarrow> string \<Rightarrow> nat \<Rightarrow> bool \<Rightarrow> numerr + (nat \<times> bool)" where
  "digitLoop base base0 [] n us = Inr (n, us)"
| "digitLoop base base0 (c # cs) n us =
     (if c = CHR ''_'' \<and> base0 then digitLoop base base0 cs n True
      else case digitVal c of
             None \<Rightarrow> Inl ErrSyntax
           | Some d \<Rightarrow>
               (case accumulate base n d of
                  Inl e \<Rightarrow> Inl e
                | Inr n1 \<Rightarrow> digitLoop base base0 cs n1 us))"

text \<open>
  \<open>underscoreOK\<close>: underscores may only separate digits, or follow a base prefix. \<open>saw\<close> is
  the last character class seen: \<open>^\<close> at the start, \<open>0\<close> for a digit or base prefix,
  \<open>_\<close> for an underscore, \<open>!\<close> for anything else.
\<close>

definition isNumberByte :: "bool \<Rightarrow> char \<Rightarrow> bool" where
  "isNumberByte hex c =
     ((CHR ''0'' \<le> c \<and> c \<le> CHR ''9'') \<or>
      (hex \<and> of_char CHR ''a'' \<le> lower c \<and> lower c \<le> of_char CHR ''f''))"

fun underscoreLoop :: "bool \<Rightarrow> char \<Rightarrow> string \<Rightarrow> bool" where
  "underscoreLoop hex saw [] = (saw \<noteq> CHR ''_'')"
| "underscoreLoop hex saw (c # cs) =
     (if isNumberByte hex c then underscoreLoop hex CHR ''0'' cs
      else if c = CHR ''_''
        then (if saw \<noteq> CHR ''0'' then False else underscoreLoop hex CHR ''_'' cs)
      else if saw = CHR ''_'' then False
      else underscoreLoop hex CHR ''!'' cs)"

definition dropSign :: "string \<Rightarrow> string" where
  "dropSign s = (if length s \<ge> 1 \<and> (s ! 0 = CHR ''-'' \<or> s ! 0 = CHR ''+'') then drop 1 s else s)"

definition hasBasePrefix :: "string \<Rightarrow> bool" where
  "hasBasePrefix s =
     (length s \<ge> 2 \<and> s ! 0 = CHR ''0'' \<and>
      (lower (s ! 1) = of_char CHR ''b'' \<or> lower (s ! 1) = of_char CHR ''o'' \<or>
       lower (s ! 1) = of_char CHR ''x''))"

definition underscoreOK :: "string \<Rightarrow> bool" where
  "underscoreOK s0 =
     (let s = dropSign s0
      in if hasBasePrefix s
         then underscoreLoop (lower (s ! 1) = of_char CHR ''x'') CHR ''0'' (drop 2 s)
         else underscoreLoop False CHR ''^'' s)"

text \<open>
  \<open>strconv.ParseUint(s, base, 64)\<close> for the two bases the program uses: \<open>base = 10\<close> (through
  \<open>Atoi\<close>) and \<open>base = 0\<close>. \<open>pickBase\<close> is the \<open>switch\<close> on the base: with \<open>base = 0\<close> a
  prefix \<open>0b\<close>, \<open>0o\<close> or \<open>0x\<close> of a string of at least three bytes selects base 2, 8 or 16,
  another leading \<open>0\<close> selects base 8, and anything else is decimal. It yields the base and
  the rest of the string.
\<close>

definition pickBase :: "string \<Rightarrow> nat \<Rightarrow> nat \<times> string" where
  "pickBase s base =
     (if base = 0 then
        (if s ! 0 = CHR ''0'' then
           (if length s \<ge> 3 \<and> lower (s ! 1) = of_char CHR ''b'' then (2, drop 2 s)
            else if length s \<ge> 3 \<and> lower (s ! 1) = of_char CHR ''o'' then (8, drop 2 s)
            else if length s \<ge> 3 \<and> lower (s ! 1) = of_char CHR ''x'' then (16, drop 2 s)
            else (8, drop 1 s))
         else (10, s))
      else (base, s))"

definition ParseUint :: "string \<Rightarrow> nat \<Rightarrow> numerr + nat" where
  "ParseUint s0 base =
     (if s0 = [] then Inl ErrSyntax
      else case digitLoop (fst (pickBase s0 base)) (base = 0) (snd (pickBase s0 base)) 0 False of
             Inl e \<Rightarrow> Inl e
           | Inr (n, us) \<Rightarrow> if us \<and> \<not> underscoreOK s0 then Inl ErrSyntax else Inr n)"

text \<open>
  \<open>strconv.ParseInt(s, base, 0)\<close>; \<open>bitSize = 0\<close> stands for the size of \<open>int\<close>, 64 bits,
  so \<open>cutoff = 1<<63\<close>. A syntax error of \<open>ParseUint\<close> is returned with the function name
  and the number replaced; on a range error \<open>ParseUint\<close> returns \<open>maxVal = 1<<64 - 1\<close>,
  which the cutoff test turns into the range error of \<open>ParseInt\<close>.
\<close>

definition checkRange :: "string \<Rightarrow> bool \<Rightarrow> nat \<Rightarrow> failure + int" where
  "checkRange s0 neg un =
     (if \<not> neg \<and> un \<ge> 9223372036854775808 then Inl (NumError ''ParseInt'' s0 ErrRange)
      else if neg \<and> un > 9223372036854775808 then Inl (NumError ''ParseInt'' s0 ErrRange)
      else Inr (if neg then - int un else int un))"

definition ParseInt :: "string \<Rightarrow> nat \<Rightarrow> failure + int" where
  "ParseInt s0 base =
     (if s0 = [] then Inl (NumError ''ParseInt'' s0 ErrSyntax)
      else case ParseUint (dropSign s0) base of
             Inl ErrSyntax \<Rightarrow> Inl (NumError ''ParseInt'' s0 ErrSyntax)
           | Inl ErrRange \<Rightarrow> checkRange s0 (s0 ! 0 = CHR ''-'') maxUint64
           | Inr un \<Rightarrow> checkRange s0 (s0 ! 0 = CHR ''-'') un)"

text \<open>
  \<open>strconv.Atoi(s)\<close>. Strings of 1 to 18 bytes take the fast path: an optional sign, then
  decimal digits accumulated without overflow (\<open>ch -= '0'\<close> is on bytes, hence modulo
  256). All other strings go through \<open>ParseInt(s, 10, 0)\<close>, whose error is renamed to
  \<open>Atoi\<close>.
\<close>

fun atoiLoop :: "string \<Rightarrow> nat \<Rightarrow> nat option" where
  "atoiLoop [] n = Some n"
| "atoiLoop (ch # cs) n =
     (if ((of_char ch :: nat) + 256 - of_char CHR ''0'') mod 256 > 9 then None
      else atoiLoop cs (n * 10 + ((of_char ch :: nat) + 256 - of_char CHR ''0'') mod 256))"

definition Atoi :: "string \<Rightarrow> failure + int" where
  "Atoi s0 =
     (if 0 < length s0 \<and> length s0 < 19 then
        (if (s0 ! 0 = CHR ''-'' \<or> s0 ! 0 = CHR ''+'') \<and> length (dropSign s0) < 1
         then Inl (NumError ''Atoi'' s0 ErrSyntax)
         else (case atoiLoop (dropSign s0) 0 of
                 None \<Rightarrow> Inl (NumError ''Atoi'' s0 ErrSyntax)
               | Some n \<Rightarrow> Inr (if s0 ! 0 = CHR ''-'' then - int n else int n)))
      else
        (case ParseInt s0 10 of
           Inl (NumError fn num e) \<Rightarrow> Inl (NumError ''Atoi'' num e)
         | Inl e \<Rightarrow> Inl e
         | Inr n \<Rightarrow> Inr n))"

section \<open>The listing parser (getDisasm, lines 57-118)\<close>

text \<open>
  The two calls of \<open>exec.Command\<close> at the head of \<open>getDisasm\<close> build the binary and run the
  disassembler; what the rest of the function works on is the text \<open>disasmOut\<close>, which is
  the input here. The parser state is the slice \<open>out\<close> and the map \<open>m\<close> from binary
  offsets to "file:line" strings. Reading a Go map at a missing key gives the zero value,
  the empty string.
\<close>

type_synonym pstate = "disasmSym list \<times> (int \<rightharpoonup> string)"

definition mapGet :: "(int \<rightharpoonup> string) \<Rightarrow> int \<Rightarrow> string" where
  "mapGet m k = (case m k of None \<Rightarrow> [] | Some v \<Rightarrow> v)"

text \<open>
  Lines 66-75, a line with the prefix \<open>TEXT \<close>:
  \<open>f := strings.SplitN(l[len(textPrefix):], " ", 2)\<close>, an error unless there are two
  pieces, else a new symbol is appended to \<open>out\<close>.
\<close>

definition parseHeader :: "string \<Rightarrow> pstate \<Rightarrow> failure + pstate" where
  "parseHeader l st =
     (let f = strings_SplitN_sp2 (drop (length ''TEXT '') l)
      in if length f \<noteq> 2 then Inl (ErrorDecoding l)
         else Inr (fst st @ [\<lparr>file_s = f ! 1, symbol = f ! 0, content = []\<rparr>], snd st))"

text \<open>
  Lines 82-100 on \<open>l\<close>, the line without its first two bytes: the fields \<open>f\<close>, \<open>fileSrc\<close>,
  \<open>srcLine\<close>, \<open>binOffset\<close>, \<open>asm\<close> and \<open>decoded\<close>, in the order the source computes them.
  Every slice expression is bounds-checked, the two conversions return their error.
\<close>

definition parseFields :: "string \<Rightarrow> failure + (string \<times> string \<times> int \<times> int \<times> string \<times> string)" where
  "parseFields l =
     bind_r (slice_to l (strings_IndexByte l CHR '':'')) (\<lambda>f.
     bind_r (slice_to l (strings_IndexByte l CHR 0x09)) (\<lambda>fileSrc.
     bind_r (slice l (strings_IndexByte l CHR '':'' + 1) (strings_IndexByte l CHR 0x09)) (\<lambda>num.
     bind_r (Atoi num) (\<lambda>srcLine.
     bind_r (slice_from l (strings_IndexByte l CHR 0x09)) (\<lambda>r1.
     let l1 = strings_TrimSpace r1 in
     bind_r (slice_to l1 (strings_IndexByte l1 CHR 0x09)) (\<lambda>off.
     bind_r (ParseInt off 0) (\<lambda>binOffset.
     bind_r (slice_from l1 (strings_IndexByte l1 CHR 0x09)) (\<lambda>r2.
     let l2 = strings_TrimSpace r2 in
     bind_r (slice_to l2 (strings_IndexByte l2 CHR 0x09)) (\<lambda>asm.
     bind_r (slice_from l2 (strings_IndexByte l2 CHR 0x09)) (\<lambda>r3.
     Inr (f, fileSrc, srcLine, binOffset, asm, strings_TrimSpace r3)))))))))))"

text \<open>
  Lines 101-115: \<open>instr\<close> and \<open>arg\<close> are \<open>decoded\<close> split at its first space (the two slice
  expressions are in bounds, since \<open>j\<close> is an index of \<open>decoded\<close>), and the new
  \<open>&disamLine{...}\<close>, whose \<open>alias\<close> is the zero value.
\<close>

definition newLine :: "string \<Rightarrow> int \<Rightarrow> int \<Rightarrow> string \<Rightarrow> string \<Rightarrow> disamLine" where
  "newLine f sl off a dec =
     (let j = strings_IndexByte dec CHR '' ''
      in \<lparr>file_l = f, srcLine = sl, binOffset = off, asm = a, decoded = dec,
          instr = (if j \<noteq> - 1 then take (nat j) dec else dec),
          arg = (if j \<noteq> - 1 then drop (nat (j + 1)) dec else []),
          alias_l = []\<rparr>)"

text \<open>Line 116: \<open>d.content = append(d.content, a)\<close> where \<open>d = out[len(out)-1]\<close> points to
  the last symbol (\<open>out\<close> is not empty here).\<close>

definition appendToLast :: "disasmSym list \<Rightarrow> disamLine \<Rightarrow> disasmSym list" where
  "appendToLast out a = butlast out @ [(last out)\<lparr>content := content (last out) @ [a]\<rparr>]"

text \<open>The body of the loop over the lines, lines 61-117.\<close>

definition parseLine :: "pstate \<Rightarrow> string \<Rightarrow> failure + pstate" where
  "parseLine st l =
     (if l = [] then Inr st
      else if strings_HasPrefix l ''TEXT '' then parseHeader l st
      else if \<not> strings_HasPrefix l ''  '' \<or> length (fst st) = 0 then Inl (ErrorDecoding l)
      else bind_r (parseFields (drop 2 l)) (\<lambda>(f, fileSrc, sl, off, a, dec).
             Inr (appendToLast (fst st) (newLine f sl off a dec), (snd st)(off \<mapsto> fileSrc))))"

fun parseLines :: "pstate \<Rightarrow> string list \<Rightarrow> failure + pstate" where
  "parseLines st [] = Inr st"
| "parseLines st (l # ls) = bind_r (parseLine st l) (\<lambda>st'. parseLines st' ls)"

definition parse :: "string \<Rightarrow> failure + pstate" where
  "parse disasmOut = parseLines ([], Map.empty) (strings_Split_nl disasmOut)"

text \<open>Every instruction of every symbol, in the order of the listing (what the two nested
  loops \<open>for _, s := range out { for _, c := range s.content\<close> visit).\<close>

definition linesOf :: "disasmSym list \<Rightarrow> disamLine list" where
  "linesOf out = concat (map content out)"

section \<open>The jump resolver (getDisasm, lines 122-133)\<close>

text \<open>
  The body of the inner loop. \<open>c.instr[0]\<close> panics on an empty \<open>instr\<close>. An error of
  \<open>ParseInt\<close> and a missing (or empty) map entry leave the line as it is.
\<close>

definition resolveLine :: "(int \<rightharpoonup> string) \<Rightarrow> disamLine \<Rightarrow> failure + disamLine" where
  "resolveLine m c =
     (if instr c = [] then Inl Panic
      else if instr c ! 0 = CHR ''J'' then
        (case ParseInt (arg c) 0 of
           Inl e \<Rightarrow> Inr c
         | Inr b \<Rightarrow> if mapGet m b \<noteq> [] then Inr (c\<lparr>alias_l := mapGet m b\<rparr>) else Inr c)
      else Inr c)"

fun resolveLines :: "(int \<rightharpoonup> string) \<Rightarrow> disamLine list \<Rightarrow> failure + disamLine list" where
  "resolveLines m [] = Inr []"
| "resolveLines m (c # cs) =
     bind_r (resolveLine m c) (\<lambda>c'. bind_r (resolveLines m cs) (\<lambda>cs'. Inr (c' # cs')))"

fun resolve :: "(int \<rightharpoonup> string) \<Rightarrow> disasmSym list \<Rightarrow> failure + disasmSym list" where
  "resolve m [] = Inr []"
| "resolve m (s # ss) =
     bind_r (resolveLines m (content s)) (\<lambda>cs'.
       bind_r (resolve m ss) (\<lambda>ss'. Inr (s\<lparr>content := cs'\<rparr> # ss')))"

section \<open>The file filter (getDisasm, lines 135-144)\<close>

text \<open>
  \<open>filepath.Base\<close> of the Go standard library (Unix: the separator is \<open>/\<close>, the volume name
  is empty): the empty path gives \<open>.\<close>, trailing slashes are stripped, the text after the
  last slash is kept, and a path of slashes only gives \<open>/\<close>.
\<close>

definition filepath_Base :: "string \<Rightarrow> string" where
  "filepath_Base path =
     (if path = [] then ''.''
      else let p1 = rev (dropWhile (\<lambda>c. c = CHR ''/'') (rev path));
               p2 = rev (takeWhile (\<lambda>c. c \<noteq> CHR ''/'') (rev p1))
           in if p2 = [] then ''/'' else p2)"

text \<open>
  The builtin \<open>copy(dst, src)\<close>: it overwrites the first \<open>min(len(dst), len(src))\<close> elements
  of \<open>dst\<close> with those of \<open>src\<close> (overlap is handled as by memmove) and leaves the length
  of \<open>dst\<close> as it is. The function returns the new contents of \<open>dst\<close>.
\<close>

definition copy_go :: "'a list \<Rightarrow> 'a list \<Rightarrow> 'a list" where
  "copy_go dst src = (let n = min (length dst) (length src) in take n src @ drop n dst)"

text \<open>
  \<open>copy(out[i:], out[i+1:])\<close> on the slice \<open>out\<close>: the elements before \<open>i\<close> stay, the
  window \<open>out[i:]\<close> receives \<open>out[i+1:]\<close>. The slice header of \<open>out\<close> is not changed: the
  source never re-slices \<open>out\<close>, so its length stays the same.
\<close>

definition shiftLeft :: "'a list \<Rightarrow> nat \<Rightarrow> 'a list" where
  "shiftLeft out i = take i out @ copy_go (drop i out) (drop (i + 1) out)"

text \<open>
  The loop \<open>for i := 0; i < len(out); i++ { if filepath.Base(out[i].file) != file
  { copy(out[i:], out[i+1:]); i-- } }\<close>. The state is the slice contents and the loop
  variable \<open>i\<close>; the body's \<open>i--\<close> and the loop's \<open>i++\<close> are both written out. The loop may
  run forever, hence the option type: \<open>None\<close> is "does not return".
\<close>

partial_function (option) filterLoop :: "string \<Rightarrow> disasmSym list \<Rightarrow> int \<Rightarrow> disasmSym list option" where
  "filterLoop target out i =
     (if i < int (length out) then
        (if filepath_Base (file_s (out ! nat i)) \<noteq> target
         then filterLoop target (shiftLeft out (nat i)) ((i - 1) + 1)
         else filterLoop target out (i + 1))
      else Some out)"

declare filterLoop.simps [code]

text \<open>\<open>if file != "" { ... }\<close> around the loop; the result is the \<open>out\<close> that is returned.\<close>

definition fileFilter :: "string \<Rightarrow> disasmSym list \<Rightarrow> disasmSym list option" where
  "fileFilter target out = (if target \<noteq> [] then filterLoop target out 0 else Some out)"

text \<open>What the filter is meant to compute: the symbols whose base name is the target.\<close>

definition matches :: "string \<Rightarrow> disasmSym \<Rightarrow> bool" where
  "matches target s = (filepath_Base (file_s s) = target)"

section \<open>getDisasm after the two external commands\<close>

text \<open>
  Parse, resolve, filter, return. \<open>None\<close>: the call does not return; \<open>Some (Inl e)\<close>: it
  returns the error \<open>e\<close> or panics; \<open>Some (Inr out)\<close>: it returns \<open>out, nil\<close>.
\<close>

definition getDisasm :: "string \<Rightarrow> string \<Rightarrow> (failure + disasmSym list) option" where
  "getDisasm disasmOut target =
     (case parse disasmOut of
        Inl e \<Rightarrow> Some (Inl e)
      | Inr st \<Rightarrow>
          (case resolve (snd st) (fst st) of
             Inl e \<Rightarrow> Some (Inl e)
           | Inr out \<Rightarrow> map_option Inr (fileFilter target out)))"

section \<open>The renderer (printAnnotated, lines 148-212)\<close>

subsection \<open>The two sorts\<close>









subsection \<open>Printing one instruction\<close>

text \<open>
  What is written to \<open>w\<close> is recorded call by call: \<open>Fprintf fmt args\<close> is
  \<open>fmt.Fprintf(w, fmt, args...)\<close> and \<open>Fprint s\<close> is \<open>fmt.Fprint(w, s)\<close>. The escape sequences
  of package \<open>ansi\<close> are not part of the repository; they are the fields of a parameter
  (\<open>YellowHB\<close> stands for \<open>ansi.ColorCode("yellow+h+b")\<close>).
\<close>

datatype fmtarg = S string | D int

datatype wcall = Fprintf string "fmtarg list" | Fprint string

record ansi =
  LightYellow :: string
  LightGreen :: string
  LightBlue :: string
  LightRed :: string
  LightMagenta :: string
  YellowHB :: string
  Reset :: string

text \<open>\<open>func shorten\<close>: \<open>strings.ReplaceAll(l, "\t", "  ")\<close>.\<close>

definition shorten :: "string \<Rightarrow> string" where
  "shorten l = concat (map (\<lambda>c. if c = CHR 0x09 then ''  '' else [c]) l)"

text \<open>Lines 186-196, the colour of an instruction.\<close>

definition colorOf :: "ansi \<Rightarrow> disamLine \<Rightarrow> string" where
  "colorOf a c =
     (if instr c = ''CALL'' \<or> instr c = ''RET'' then LightGreen a
      else if strings_HasPrefix (instr c) ''J'' then LightBlue a
      else if instr c = ''UD2'' then LightRed a
      else if instr c = ''INT'' \<or> strings_HasPrefix (instr c) ''NOP'' then LightMagenta a
      else [])"

text \<open>Lines 197-203, the line of the instruction itself.\<close>

definition instrWrite :: "ansi \<Rightarrow> disamLine \<Rightarrow> wcall" where
  "instrWrite a c =
     (if alias_l c \<noteq> [] then
        Fprintf (''  %s%-5s %s%s'' @ [CHR 0x0A]) [S (colorOf a c), S (instr c), S (alias_l c), S (Reset a)]
      else if arg c \<noteq> [] then
        Fprintf (''  %s%-5s %s%s'' @ [CHR 0x0A]) [S (colorOf a c), S (instr c), S (arg c), S (Reset a)]
      else
        Fprintf (''  %s%s%s'' @ [CHR 0x0A]) [S (colorOf a c), S (instr c), S (Reset a)])"

text \<open>Line 207, the test for an unconditional change of control flow.\<close>

definition endsBlock :: "disamLine \<Rightarrow> bool" where
  "endsBlock c =
     (strings_HasPrefix (decoded c) ''JMP '' \<or> strings_HasPrefix (decoded c) ''RET '' \<or>
      strings_HasPrefix (decoded c) ''UD2 '')"

text \<open>
  The body of the loop over \<open>s.content\<close>, lines 173-209: \<open>lines\<close> is the source file split
  at line feeds, \<open>lastLine\<close> the loop-carried variable. The result is what was written and
  either the new \<open>lastLine\<close> or the panic of \<open>lines[c.srcLine-1]\<close>, which is evaluated
  before anything is written for this instruction.
\<close>

definition printLine :: "ansi \<Rightarrow> string list \<Rightarrow> int \<Rightarrow> disamLine \<Rightarrow> wcall list \<times> (failure + int)" where
  "printLine a lines lastLine c =
     (if srcLine c \<noteq> lastLine \<and> \<not> (0 \<le> srcLine c - 1 \<and> srcLine c - 1 < int (length lines))
      then ([], Inl Panic)
      else
        ((if srcLine c \<noteq> lastLine
          then [Fprintf (''%d  %s%s%s'' @ [CHR 0x0A])
                  [D (srcLine c), S (YellowHB a), S (shorten (lines ! nat (srcLine c - 1))), S (Reset a)]]
          else [])
         @ [instrWrite a c]
         @ (if endsBlock c then [Fprint [CHR 0x0A]] else []),
         Inr (if srcLine c \<noteq> lastLine then srcLine c else lastLine)))"

text \<open>The loop \<open>for _, c := range s.content\<close>, lines 171-210, started with \<open>lastLine\<close>; it
  stops at a panic.\<close>

fun printLines :: "ansi \<Rightarrow> string list \<Rightarrow> int \<Rightarrow> disamLine list \<Rightarrow> wcall list \<times> failure option" where
  "printLines a lines lastLine [] = ([], None)"
| "printLines a lines lastLine (c # cs) =
     (case printLine a lines lastLine c of
        (ws, Inl e) \<Rightarrow> (ws, Some e)
      | (ws, Inr lastLine') \<Rightarrow>
          (case printLines a lines lastLine' cs of (ws', r) \<Rightarrow> (ws @ ws', r)))"

section \<open>A listing used to exercise the theorems\<close>

text \<open>
  One symbol with five instructions: a jump to a hexadecimal address of the listing, a jump to
  a decimal one, a jump through a register, a jump to an address that is not in the
  listing, and a return. Fields are separated by tabs, lines by line feeds.
\<close>

definition listing_jumps :: string where
  "listing_jumps =
     ''TEXT a b'' @ [CHR 0x0A] @
     ''  x:1'' @ [CHR 0x09] @ ''16'' @ [CHR 0x09] @ ''ab'' @ [CHR 0x09] @ ''JMP 0x20'' @ [CHR 0x0A] @
     ''  x:2'' @ [CHR 0x09] @ ''32'' @ [CHR 0x09] @ ''cd'' @ [CHR 0x09] @ ''JNE 16'' @ [CHR 0x0A] @
     ''  x:3'' @ [CHR 0x09] @ ''48'' @ [CHR 0x09] @ ''ef'' @ [CHR 0x09] @ ''JMP (AX)'' @ [CHR 0x0A] @
     ''  x:4'' @ [CHR 0x09] @ ''64'' @ [CHR 0x09] @ ''gh'' @ [CHR 0x09] @ ''JEQ 99'' @ [CHR 0x0A] @
     ''  x:5'' @ [CHR 0x09] @ ''80'' @ [CHR 0x09] @ ''ij'' @ [CHR 0x09] @ ''RET''"

text \<open>What the parser makes of it: the symbols and the address index.\<close>

definition listing_jumps_out :: "disasmSym list" where
  "listing_jumps_out =
     [\<lparr>file_s = ''b'', symbol = ''a'', content =
           [\<lparr>file_l = ''x'', srcLine = 1, binOffset = 16, asm = ''ab'',
               decoded = ''JMP 0x20'', instr = ''JMP'', arg = ''0x20'', alias_l = []\<rparr>,
            \<lparr>file_l = ''x'', srcLine = 2, binOffset = 32, asm = ''cd'',
               decoded = ''JNE 16'', instr = ''JNE'', arg = ''16'', alias_l = []\<rparr>,
            \<lparr>file_l = ''x'', srcLine = 3, binOffset = 48, asm = ''ef'',
               decoded = ''JMP (AX)'', instr = ''JMP'', arg = ''(AX)'', alias_l = []\<rparr>,
            \<lparr>file_l = ''x'', srcLine = 4, binOffset = 64, asm = ''gh'',
               decoded = ''JEQ 99'', instr = ''JEQ'', arg = ''99'', alias_l = []\<rparr>,
            \<lparr>file_l = ''x'', srcLine = 5, binOffset = 80, asm = ''ij'',
               decoded = ''RET'', instr = ''RET'', arg = [], alias_l = []\<rparr>]\<rparr>]"

definition listing_jumps_index :: "int \<rightharpoonup> string" where
  "listing_jumps_index =
     [16 \<mapsto> ''x:1'', 32 \<mapsto> ''x:2'', 48 \<mapsto> ''x:3'', 64 \<mapsto> ''x:4'', 80 \<mapsto> ''x:5'']"

text \<open>And what the resolver makes of that: the first two jumps receive an alias.\<close>

definition listing_jumps_resolved :: "disasmSym list" where
  "listing_jumps_resolved =
     [\<lparr>file_s = ''b'', symbol = ''a'', content =
           [\<lparr>file_l = ''x'', srcLine = 1, binOffset = 16, asm = ''ab'',
               decoded = ''JMP 0x20'', instr = ''JMP'', arg = ''0x20'', alias_l = ''x:2''\<rparr>,
            \<lparr>file_l = ''x'', srcLine = 2, binOffset = 32, asm = ''cd'',
               decoded = ''JNE 16'', instr = ''JNE'', arg = ''16'', alias_l = ''x:1''\<rparr>,
            \<lparr>file_l = ''x'', srcLine = 3, binOffset = 48, asm = ''ef'',
               decoded = ''JMP (AX)'', instr = ''JMP'', arg = ''(AX)'', alias_l = []\<rparr>,
            \<lparr>file_l = ''x'', srcLine = 4, binOffset = 64, asm = ''gh'',
               decoded = ''JEQ 99'', instr = ''JEQ'', arg = ''99'', alias_l = []\<rparr>,
            \<lparr>file_l = ''x'', srcLine = 5, binOffset = 80, asm = ''ij'',
               decoded = ''RET'', instr = ''RET'', arg = [], alias_l = []\<rparr>]\<rparr>]"


text \<open>A palette for the examples: every escape sequence empty.\<close>

definition noColors :: ansi where
  "noColors = \<lparr>LightYellow = [], LightGreen = [], LightBlue = [], LightRed = [],
                LightMagenta = [], YellowHB = [], Reset = []\<rparr>"

section \<open>Facts about the library functions\<close>

lemma bind_r_Inl [simp]: "bind_r (Inl e) f = Inl e" by (simp add: bind_r_def)
lemma bind_r_Inr [simp]: "bind_r (Inr v) f = f v" by (simp add: bind_r_def)
lemma bind_r_eq_Inr: "bind_r x f = Inr y \<longleftrightarrow> (\<exists>v. x = Inr v \<and> f v = Inr y)"
  by (cases x) auto

lemma leadLen_zero: "leadLen runes s = 0 \<longleftrightarrow> (\<forall>t \<in> set runes. t \<noteq> [] \<longrightarrow> take (length t) s \<noteq> t)"
proof -
  let ?P = "\<lambda>t. t \<noteq> [] \<and> take (length t) s = t"
  show ?thesis
  proof (cases "filter ?P runes")
    case Nil
    then show ?thesis by (auto simp: leadLen_def filter_empty_conv)
  next
    case (Cons t ts)
    then have "t \<in> set (filter ?P runes)" by simp
    then have "t \<in> set runes" "?P t" by auto
    with Cons show ?thesis by (auto simp: leadLen_def)
  qed
qed

lemma leadLen_pos:
  assumes "leadLen runes s \<noteq> 0"
  shows "\<exists>t \<in> set runes. t \<noteq> [] \<and> take (length t) s = t \<and> leadLen runes s = length t"
proof -
  let ?P = "\<lambda>t. t \<noteq> [] \<and> take (length t) s = t"
  from assms obtain t ts where c: "filter ?P runes = t # ts"
    by (cases "filter ?P runes") (auto simp: leadLen_def)
  then have "t \<in> set (filter ?P runes)" by simp
  then have "t \<in> set runes" "?P t" by auto
  with c show ?thesis by (auto simp: leadLen_def)
qed

lemma trimRunes_spec:
  "\<exists>p. s = p @ trimRunes runes s \<and> leadLen runes (trimRunes runes s) = 0 \<and>
       (p \<noteq> [] \<longrightarrow> (\<exists>t \<in> set runes. t \<noteq> [] \<and> suffix t p))"
proof (induction runes s rule: trimRunes.induct)
  case (1 runes s)
  show ?case
  proof (cases "leadLen runes s = 0")
    case True
    then have "trimRunes runes s = s" by (subst trimRunes.simps) simp
    with True show ?thesis by (intro exI[of _ "[]"]) simp
  next
    case False
    from leadLen_pos[OF False] obtain t where t: "t \<in> set runes" "t \<noteq> []"
      "take (length t) s = t" "leadLen runes s = length t" by blast
    define s' where "s' = drop (length t) s"
    have eq: "trimRunes runes s = trimRunes runes s'"
      using False t(4) unfolding s'_def by (subst trimRunes.simps) simp
    have "\<exists>p. s' = p @ trimRunes runes s' \<and> leadLen runes (trimRunes runes s') = 0 \<and>
       (p \<noteq> [] \<longrightarrow> (\<exists>t \<in> set runes. t \<noteq> [] \<and> suffix t p))"
      using 1[OF False] unfolding t(4) s'_def .
    then obtain p where p: "s' = p @ trimRunes runes s'"
      "leadLen runes (trimRunes runes s') = 0"
      "p \<noteq> [] \<longrightarrow> (\<exists>t \<in> set runes. t \<noteq> [] \<and> suffix t p)" by blast
    have "take (length t) s @ drop (length t) s = s" by (rule append_take_drop_id)
    then have s: "s = t @ s'" unfolding s'_def t(3) by simp
    have a: "s = (t @ p) @ trimRunes runes s" unfolding eq using s p(1) by simp
    have b: "\<exists>u \<in> set runes. u \<noteq> [] \<and> suffix u (t @ p)"
    proof (cases "p = []")
      case True with t(1,2) show ?thesis by auto
    next
      case False
      with p(3) obtain u where "u \<in> set runes" "u \<noteq> []" "suffix u p" by blast
      then show ?thesis by (auto simp: suffix_append)
    qed
    have c: "leadLen runes (trimRunes runes s) = 0" unfolding eq by (rule p(2))
    from a b c show ?thesis by blast
  qed
qed

lemma trimRunes_id: "leadLen runes s = 0 \<Longrightarrow> trimRunes runes s = s"
  by (subst trimRunes.simps) simp

text \<open>A trimmed string neither starts nor ends with a white-space rune, and it is a
  substring of the input.\<close>

lemma TrimSpace_spec:
  "\<exists>p q. s = p @ strings_TrimSpace s @ q \<and>
     leadLen (map rev spaceRunes) (rev (strings_TrimSpace s)) = 0 \<and>
     (strings_TrimSpace s \<noteq> [] \<longrightarrow> leadLen spaceRunes (strings_TrimSpace s) = 0) \<and>
     (strings_TrimSpace s = [] \<and> s \<noteq> [] \<longrightarrow> (\<exists>t \<in> set spaceRunes. t \<noteq> [] \<and> suffix t s))"
proof -
  let ?u = "trimRunes spaceRunes s"
  let ?R = "map rev spaceRunes"
  from trimRunes_spec[of s spaceRunes] obtain p where p: "s = p @ ?u" "leadLen spaceRunes ?u = 0"
    "p \<noteq> [] \<longrightarrow> (\<exists>t \<in> set spaceRunes. t \<noteq> [] \<and> suffix t p)" by blast
  from trimRunes_spec[of "rev ?u" ?R] obtain q where q: "rev ?u = q @ trimRunes ?R (rev ?u)"
    "leadLen ?R (trimRunes ?R (rev ?u)) = 0"
    "q \<noteq> [] \<longrightarrow> (\<exists>t \<in> set ?R. t \<noteq> [] \<and> suffix t q)" by blast
  have T: "strings_TrimSpace s = rev (trimRunes ?R (rev ?u))" by (simp add: strings_TrimSpace_def)
  have "rev (rev ?u) = rev (q @ trimRunes ?R (rev ?u))" using q(1) by simp
  then have u: "?u = strings_TrimSpace s @ rev q" using T by simp
  have 1: "s = p @ strings_TrimSpace s @ rev q" using p(1) u by simp
  have 2: "leadLen ?R (rev (strings_TrimSpace s)) = 0" using q(2) T by simp
  have 3: "leadLen spaceRunes (strings_TrimSpace s) = 0" if ne: "strings_TrimSpace s \<noteq> []"
  proof -
    have "take (length t) (strings_TrimSpace s) \<noteq> t" if t: "t \<in> set spaceRunes" "t \<noteq> []" for t
    proof
      assume a: "take (length t) (strings_TrimSpace s) = t"
      then have "length t \<le> length (strings_TrimSpace s)"
        by (metis length_take min.cobounded1)
      then have "take (length t) ?u = t" using a u by simp
      with p(2) t show False by (simp add: leadLen_zero)
    qed
    then show ?thesis by (simp add: leadLen_zero)
  qed
  have 4: "\<exists>t \<in> set spaceRunes. t \<noteq> [] \<and> suffix t s" if e: "strings_TrimSpace s = []" "s \<noteq> []"
  proof (cases "q = []")
    case True
    with u e have "?u = []" by simp
    with p e have "p = s" "p \<noteq> []" by auto
    with p(3) show ?thesis by auto
  next
    case False
    with q(3) obtain t where t: "t \<in> set ?R" "t \<noteq> []" "suffix t q" by auto
    from t(1) obtain t' where t': "t' \<in> set spaceRunes" "t = rev t'" by auto
    from t(3) have "prefix (rev t) (rev q)" by (simp add: suffix_to_prefix)
    then have "prefix t' ?u" using u e t' by simp
    moreover have "take (length t') ?u \<noteq> t'" using p(2) t' t(2) by (simp add: leadLen_zero)
    ultimately show ?thesis by (auto simp: prefix_def)
  qed
  from 1 2 3 4 show ?thesis by blast
qed

lemma TrimSpace_no_space_suffix:
  assumes "t \<in> set spaceRunes" "t \<noteq> []"
  shows "\<not> suffix t (strings_TrimSpace s)"
proof
  assume "suffix t (strings_TrimSpace s)"
  then have "prefix (rev t) (rev (strings_TrimSpace s))" by (simp add: suffix_to_prefix)
  then have "take (length (rev t)) (rev (strings_TrimSpace s)) = rev t"
    by (auto simp: prefix_def)
  moreover from TrimSpace_spec[of s]
  have "leadLen (map rev spaceRunes) (rev (strings_TrimSpace s)) = 0" by blast
  ultimately show False using assms by (auto simp: leadLen_zero)
qed

lemma TrimSpace_nonempty:
  assumes "r \<noteq> []" "\<forall>t \<in> set spaceRunes. t \<noteq> [] \<longrightarrow> \<not> suffix t r"
  shows "strings_TrimSpace r \<noteq> []"
  using TrimSpace_spec[of r] assms by blast

lemma TrimSpace_hd:
  assumes "strings_TrimSpace s \<noteq> []"
  shows "hd (strings_TrimSpace s) \<noteq> CHR 0x20"
proof
  assume h: "hd (strings_TrimSpace s) = CHR 0x20"
  from TrimSpace_spec[of s] assms have "leadLen spaceRunes (strings_TrimSpace s) = 0" by blast
  moreover have "[CHR 0x20] \<in> set spaceRunes" by (simp add: spaceRunes_def)
  ultimately have "take (length [CHR 0x20]) (strings_TrimSpace s) \<noteq> [CHR 0x20]"
    unfolding leadLen_zero by blast
  with assms h show False by (cases "strings_TrimSpace s") auto
qed

lemma slice_Inr:
  "slice s lo hi = Inr x \<longleftrightarrow>
   0 \<le> lo \<and> lo \<le> hi \<and> hi \<le> int (length s) \<and> x = take (nat (hi - lo)) (drop (nat lo) s)"
  by (auto simp: slice_def)

lemma slice_to_Inr:
  "slice_to s hi = Inr x \<longleftrightarrow> 0 \<le> hi \<and> hi \<le> int (length s) \<and> x = take (nat hi) s"
  by (auto simp: slice_to_def slice_Inr)

lemma slice_from_Inr:
  "slice_from s lo = Inr x \<longleftrightarrow> 0 \<le> lo \<and> lo \<le> int (length s) \<and> x = drop (nat lo) s"
  by (auto simp: slice_from_def slice_Inr)

lemma IndexByte_nonneg:
  assumes "0 \<le> strings_IndexByte s c"
  shows "nat (strings_IndexByte s c) < length s \<and> s ! nat (strings_IndexByte s c) = c"
proof -
  from assms have in_s: "c \<in> set s" by (auto simp: strings_IndexByte_def split: if_splits)
  then have i: "strings_IndexByte s c = int (length (takeWhile (\<lambda>x. x \<noteq> c) s))"
    by (simp add: strings_IndexByte_def)
  have "dropWhile (\<lambda>x. x \<noteq> c) s \<noteq> []" using in_s by (simp add: dropWhile_eq_Nil_conv)
  moreover have "length (takeWhile (\<lambda>x. x \<noteq> c) s) + length (dropWhile (\<lambda>x. x \<noteq> c) s) = length s"
    by (simp flip: length_append)
  ultimately have lt: "length (takeWhile (\<lambda>x. x \<noteq> c) s) < length s"
    by (cases "dropWhile (\<lambda>x. x \<noteq> c) s") auto
  then have "\<not> (s ! length (takeWhile (\<lambda>x. x \<noteq> c) s) \<noteq> c)"
    by (rule nth_length_takeWhile)
  with i lt show ?thesis by simp
qed

lemma take_split_at:
  assumes "i < j" "j \<le> length l"
  shows "take j l = take i l @ l ! i # take (j - Suc i) (drop (Suc i) l)"
proof -
  have "take j l = take i (take j l) @ drop i (take j l)"
    by (rule append_take_drop_id[symmetric])
  also have "take i (take j l) = take i l" using assms by (simp add: min_def)
  also have "drop i (take j l) = take (j - i) (drop i l)" by (simp add: drop_take)
  also have "drop i l = l ! i # drop (Suc i) l" using assms by (simp add: Cons_nth_drop_Suc)
  also have "take (j - i) (l ! i # drop (Suc i) l) = l ! i # take (j - Suc i) (drop (Suc i) l)"
  proof -
    have "j - i = Suc (j - Suc i)" using assms by simp
    then show ?thesis by simp
  qed
  finally show ?thesis .
qed

lemma parseFields_Inr:
  assumes "parseFields l = Inr (f, fileSrc, sl, off, a, dec)"
  shows "(\<exists>num. fileSrc = f @ CHR '':'' # num \<and> Atoi num = Inr sl) \<and> dec \<noteq> [] \<and> hd dec \<noteq> CHR 0x20"
proof -
  define i where "i = strings_IndexByte l CHR '':''"
  define j where "j = strings_IndexByte l CHR 0x09"
  from assms obtain num r1 offs r2 r3 where
    f: "slice_to l i = Inr f" and fs: "slice_to l j = Inr fileSrc"
    and num: "slice l (i + 1) j = Inr num" and at: "Atoi num = Inr sl"
    and r1: "slice_from l j = Inr r1"
    and offs: "slice_to (strings_TrimSpace r1) (strings_IndexByte (strings_TrimSpace r1) CHR 0x09) = Inr offs"
    and r2: "slice_from (strings_TrimSpace r1) (strings_IndexByte (strings_TrimSpace r1) CHR 0x09) = Inr r2"
    and asm: "slice_to (strings_TrimSpace r2) (strings_IndexByte (strings_TrimSpace r2) CHR 0x09) = Inr a"
    and r3: "slice_from (strings_TrimSpace r2) (strings_IndexByte (strings_TrimSpace r2) CHR 0x09) = Inr r3"
    and dec: "dec = strings_TrimSpace r3"
    unfolding parseFields_def i_def j_def bind_r_eq_Inr Let_def by auto
  have i0: "0 \<le> i" and ij: "i + 1 \<le> j" and jl: "j \<le> int (length l)"
    using f num by (auto simp: slice_to_Inr slice_Inr)
  from IndexByte_nonneg[of l "CHR '':''"] i0 have li: "l ! nat i = CHR '':''" by (simp add: i_def)
  have "take (nat j) l = take (nat i) l @ l ! nat i # take (nat j - Suc (nat i)) (drop (Suc (nat i)) l)"
    by (rule take_split_at) (use i0 ij jl in auto)
  moreover have "nat (j - (i + 1)) = nat j - Suc (nat i)" "nat (i + 1) = Suc (nat i)"
    using i0 ij by auto
  ultimately have "fileSrc = f @ CHR '':'' # num"
    using f fs num li by (simp add: slice_to_Inr slice_Inr)
  with at have A: "\<exists>num. fileSrc = f @ CHR '':'' # num \<and> Atoi num = Inr sl" by blast
  define l2 where "l2 = strings_TrimSpace r2"
  define j2 where "j2 = strings_IndexByte l2 CHR 0x09"
  from r3 have j20: "0 \<le> j2" and r3e: "r3 = drop (nat j2) l2"
    by (auto simp: slice_from_Inr l2_def j2_def)
  from IndexByte_nonneg[of l2 "CHR 0x09"] j20 have lt: "nat j2 < length l2"
    by (simp add: j2_def)
  then have r3ne: "r3 \<noteq> []" using r3e by simp
  have "suffix r3 l2" unfolding r3e by (rule suffix_drop)
  then have "\<not> suffix t r3" if "t \<in> set spaceRunes" "t \<noteq> []" for t
    using TrimSpace_no_space_suffix[OF that, of r2] unfolding l2_def
    by (meson suffix_order.trans)
  with r3ne have B: "dec \<noteq> []" unfolding dec by (intro TrimSpace_nonempty) auto
  then have "hd dec \<noteq> CHR 0x20" unfolding dec by (rule TrimSpace_hd)
  with A B show ?thesis by blast
qed

lemma newLine_fields [simp]:
  "file_l (newLine f sl off a dec) = f" "srcLine (newLine f sl off a dec) = sl"
  "binOffset (newLine f sl off a dec) = off" "alias_l (newLine f sl off a dec) = []"
  "decoded (newLine f sl off a dec) = dec"
  by (simp_all add: newLine_def Let_def)

lemma newLine_instr:
  assumes "dec \<noteq> []" "hd dec \<noteq> CHR 0x20"
  shows "instr (newLine f sl off a dec) \<noteq> []"
proof (cases "strings_IndexByte dec CHR 0x20 = - 1")
  case True
  with assms show ?thesis by (simp add: newLine_def Let_def)
next
  case False
  then have "CHR 0x20 \<in> set dec" by (auto simp: strings_IndexByte_def split: if_splits)
  then have "strings_IndexByte dec CHR 0x20 = int (length (takeWhile (\<lambda>x. x \<noteq> CHR 0x20) dec))"
    by (simp add: strings_IndexByte_def)
  moreover have "takeWhile (\<lambda>x. x \<noteq> CHR 0x20) dec \<noteq> []"
    using assms by (cases dec) auto
  ultimately show ?thesis using False assms by (simp add: newLine_def Let_def)
qed


section \<open>Facts about the parser\<close>

lemma linesOf_header [simp]: "linesOf (out @ [\<lparr>file_s = f, symbol = n, content = []\<rparr>]) = linesOf out"
  by (simp add: linesOf_def)

lemma linesOf_appendToLast:
  assumes "out \<noteq> []"
  shows "linesOf (appendToLast out a) = linesOf out @ [a]"
proof -
  have "concat (map content (butlast out @ [last out])) =
        concat (map content (butlast out)) @ content (last out)" by simp
  with assms have "linesOf out = linesOf (butlast out) @ content (last out)"
    by (simp add: linesOf_def)
  then show ?thesis by (simp add: appendToLast_def linesOf_def)
qed

lemma parseLine_Inr:
  assumes "parseLine st l = Inr st'"
  shows "st' = st \<or>
         (\<exists>f n. st' = (fst st @ [\<lparr>file_s = f, symbol = n, content = []\<rparr>], snd st)) \<or>
         (fst st \<noteq> [] \<and> (\<exists>f fileSrc sl off a dec.
            parseFields (drop 2 l) = Inr (f, fileSrc, sl, off, a, dec) \<and>
            st' = (appendToLast (fst st) (newLine f sl off a dec), (snd st)(off \<mapsto> fileSrc))))"
proof (cases "l = []")
  case True with assms show ?thesis by (simp add: parseLine_def)
next
  case ne: False
  show ?thesis
  proof (cases "strings_HasPrefix l ''TEXT ''")
    case True
    with assms ne have "parseHeader l st = Inr st'" by (simp add: parseLine_def)
    then have "st' = (fst st @ [\<lparr>file_s = strings_SplitN_sp2 (drop (length ''TEXT '') l) ! 1,
        symbol = strings_SplitN_sp2 (drop (length ''TEXT '') l) ! 0, content = []\<rparr>], snd st)"
      unfolding parseHeader_def Let_def by (simp split: if_splits)
    then show ?thesis by blast
  next
    case False
    with assms ne have ok: "strings_HasPrefix l ''  ''" "fst st \<noteq> []"
      and b: "bind_r (parseFields (drop 2 l)) (\<lambda>(f, fileSrc, sl, off, a, dec).
             Inr (appendToLast (fst st) (newLine f sl off a dec), (snd st)(off \<mapsto> fileSrc))) = Inr st'"
      by (auto simp: parseLine_def split: if_splits)
    have "fst st \<noteq> [] \<and> (\<exists>f fileSrc sl off a dec.
            parseFields (drop 2 l) = Inr (f, fileSrc, sl, off, a, dec) \<and>
            st' = (appendToLast (fst st) (newLine f sl off a dec), (snd st)(off \<mapsto> fileSrc)))"
    proof (cases "parseFields (drop 2 l)")
      case (Inl e)
      with b show ?thesis by simp
    next
      case (Inr v)
      obtain f fileSrc sl off a dec where vv: "v = (f, fileSrc, sl, off, a, dec)"
        by (metis prod_cases6)
      from b have e: "st' = (appendToLast (fst st) (newLine f sl off a dec), (snd st)(off \<mapsto> fileSrc))"
        unfolding Inr vv by simp
      show ?thesis
      proof (intro conjI exI)
        show "fst st \<noteq> []" by (rule ok(2))
        show "parseFields (drop 2 l) = Inr (f, fileSrc, sl, off, a, dec)" unfolding Inr vv ..
        show "st' = (appendToLast (fst st) (newLine f sl off a dec), (snd st)(off \<mapsto> fileSrc))"
          by (rule e)
      qed
    qed
    then show ?thesis by blast
  qed
qed

lemma parseLines_invariant:
  assumes "parseLines st ls = Inr st'" "I st"
    and step: "\<And>st l st'. I st \<Longrightarrow> parseLine st l = Inr st' \<Longrightarrow> I st'"
  shows "I st'"
  using assms(1,2)
proof (induction ls arbitrary: st)
  case Nil then show ?case by simp
next
  case (Cons l ls)
  from Cons.prems(1) obtain st1 where s1: "parseLine st l = Inr st1" "parseLines st1 ls = Inr st'"
    by (auto simp: bind_r_eq_Inr)
  from step[OF Cons.prems(2) s1(1)] have "I st1" .
  from Cons.IH[OF s1(2) this] show ?case .
qed

lemma parseLines_append:
  "parseLines st (xs @ ys) = bind_r (parseLines st xs) (\<lambda>st'. parseLines st' ys)"
proof (induction xs arbitrary: st)
  case Nil show ?case by simp
next
  case (Cons x xs)
  show ?case by (cases "parseLine st x") (simp_all add: Cons.IH)
qed

text \<open>After a successful parse every instruction has a non-empty mnemonic and an empty
  alias.\<close>

lemma parse_lines_wellformed:
  assumes "parse disasmOut = Inr (out, m)"
  shows "\<forall>c \<in> set (linesOf out). instr c \<noteq> [] \<and> alias_l c = []"
proof -
  let ?I = "\<lambda>st :: pstate. \<forall>c \<in> set (linesOf (fst st)). instr c \<noteq> [] \<and> alias_l c = []"
  have "?I (out, m)"
  proof (rule parseLines_invariant[where I = ?I])
    show "parseLines ([], Map.empty) (strings_Split_nl disasmOut) = Inr (out, m)"
      using assms by (simp add: parse_def)
    show "?I ([], Map.empty)" by (simp add: linesOf_def)
  next
    fix st :: pstate and l st'
    assume I: "?I st" and p: "parseLine st l = Inr st'"
    from parseLine_Inr[OF p] show "?I st'"
    proof (elim disjE exE conjE)
      assume "st' = st" with I show ?thesis by simp
    next
      fix f n assume "st' = (fst st @ [\<lparr>file_s = f, symbol = n, content = []\<rparr>], snd st)"
      with I show ?thesis by simp
    next
      fix f fileSrc sl off a dec
      assume ne: "fst st \<noteq> []" and pf: "parseFields (drop 2 l) = Inr (f, fileSrc, sl, off, a, dec)"
        and st': "st' = (appendToLast (fst st) (newLine f sl off a dec), (snd st)(off \<mapsto> fileSrc))"
      from parseFields_Inr[OF pf] have "instr (newLine f sl off a dec) \<noteq> []"
        by (intro newLine_instr) auto
      with I st' ne show ?thesis by (simp add: linesOf_appendToLast)
    qed
  qed
  then show ?thesis by simp
qed


section \<open>Evaluating the parser on a concrete listing\<close>

text \<open>The simplifier evaluates a chain of \<open>bind_r\<close> from the left: the continuation is
  only entered once its argument is a value.\<close>

lemma bind_r_weak_cong: "x = y \<Longrightarrow> bind_r x f = bind_r y f" by simp

lemmas ev_trim = strings_TrimSpace_def trimRunes.simps leadLen_def spaceRunes_def
lemmas ev_num = Atoi_def dropSign_def ParseInt_def ParseUint_def pickBase_def checkRange_def
  digitVal_def lower_def less_eq_char_def accumulate_def maxUint64_def underscoreOK_def
  hasBasePrefix_def isNumberByte_def
lemmas ev_str = strings_HasPrefix_def strings_SplitN_sp2_def strings_IndexByte_def slice_def
  slice_to_def slice_from_def
lemmas ev_parse = parse_def parseLine_def parseHeader_def parseFields_def newLine_def
  appendToLast_def Let_def

lemma parse_listing_jumps: "parse listing_jumps = Inr (listing_jumps_out, listing_jumps_index)"
  unfolding listing_jumps_out_def listing_jumps_index_def
  by (simp add: listing_jumps_def ev_parse ev_str ev_num ev_trim cong: bind_r_weak_cong)

lemma resolve_listing_jumps:
  "resolve listing_jumps_index listing_jumps_out = Inr listing_jumps_resolved"
  by (simp add: listing_jumps_out_def listing_jumps_index_def listing_jumps_resolved_def
      resolveLine_def mapGet_def ev_num cong: bind_r_weak_cong)



section \<open>Facts about the resolver\<close>

lemma resolveLine_returns: "instr c \<noteq> [] \<Longrightarrow> \<exists>c'. resolveLine m c = Inr c'"
  by (simp add: resolveLine_def split: sum.splits)

lemma resolveLine_frame:
  assumes "resolveLine m c = Inr c'"
  shows "c' = c\<lparr>alias_l := alias_l c'\<rparr> \<and> (instr c ! 0 \<noteq> CHR ''J'' \<longrightarrow> c' = c)"
  using assms by (auto simp: resolveLine_def split: if_splits sum.splits)


lemma resolveLines_total:
  assumes "\<forall>c \<in> set cs. instr c \<noteq> []"
    and "\<And>c c'. c \<in> set cs \<Longrightarrow> resolveLine m c = Inr c' \<Longrightarrow> R c c'"
  shows "\<exists>cs'. resolveLines m cs = Inr cs' \<and> list_all2 R cs cs'"
  using assms
proof (induction cs)
  case Nil show ?case by simp
next
  case (Cons c cs)
  from Cons.prems(1) obtain c' where c': "resolveLine m c = Inr c'"
    using resolveLine_returns[of c m] by auto
  from Cons.prems(2)[OF _ c'] have r: "R c c'" by simp
  from Cons.IH Cons.prems obtain cs' where cs': "resolveLines m cs = Inr cs'" "list_all2 R cs cs'"
    by auto
  from c' cs' r show ?case by simp
qed

lemma resolve_total:
  assumes "\<forall>c \<in> set (linesOf out). instr c \<noteq> []"
    and "\<And>c c'. c \<in> set (linesOf out) \<Longrightarrow> resolveLine m c = Inr c' \<Longrightarrow> R c c'"
  shows "\<exists>out'. resolve m out = Inr out' \<and>
     list_all2 (\<lambda>s s'. file_s s' = file_s s \<and> symbol s' = symbol s \<and>
                 list_all2 R (content s) (content s')) out out'"
  using assms
proof (induction out)
  case Nil show ?case by simp
next
  case (Cons s ss)
  have "\<exists>cs'. resolveLines m (content s) = Inr cs' \<and> list_all2 R (content s) cs'"
    by (rule resolveLines_total) (use Cons.prems in \<open>auto simp: linesOf_def\<close>)
  then obtain cs' where cs': "resolveLines m (content s) = Inr cs'" "list_all2 R (content s) cs'"
    by blast
  have "\<exists>out'. resolve m ss = Inr out' \<and>
     list_all2 (\<lambda>s s'. file_s s' = file_s s \<and> symbol s' = symbol s \<and>
                 list_all2 R (content s) (content s')) ss out'"
    by (rule Cons.IH) (use Cons.prems in \<open>auto simp: linesOf_def\<close>)
  then obtain ss' where ss': "resolve m ss = Inr ss'"
    "list_all2 (\<lambda>s s'. file_s s' = file_s s \<and> symbol s' = symbol s \<and>
                 list_all2 R (content s) (content s')) ss ss'" by blast
  from cs' ss' show ?case by simp
qed

section \<open>Facts about the file filter\<close>

lemma length_shiftLeft: "length (shiftLeft out i) = length out"
  by (simp add: shiftLeft_def copy_go_def Let_def)

lemma filterLoop_end: "\<not> i < int (length out) \<Longrightarrow> filterLoop target out i = Some out"
  by (subst filterLoop.simps) simp

lemma filterLoop_keep:
  "i < int (length out) \<Longrightarrow> matches target (out ! nat i) \<Longrightarrow>
   filterLoop target out i = filterLoop target out (i + 1)"
  by (subst filterLoop.simps) (simp add: matches_def)

lemma filterLoop_drop:
  "i < int (length out) \<Longrightarrow> \<not> matches target (out ! nat i) \<Longrightarrow>
   filterLoop target out i = filterLoop target (shiftLeft out (nat i)) i"
  by (subst filterLoop.simps) (simp add: matches_def)

lemma shiftLeft_eq: "i < length out \<Longrightarrow> shiftLeft out i = take i out @ drop (i + 1) out @ [last out]"
proof -
  assume a: "i < length out"
  then have n: "min (length out - i) (length out - (i + 1)) = length out - (i + 1)" by simp
  have "drop (length out - (i + 1)) (drop i out) = drop (length out - 1) out"
    using a by simp
  also have "\<dots> = [last out]" using a
    by (metis append_butlast_last_id append_eq_conv_conj length_butlast list.size(3) not_less_zero)
  finally show ?thesis
    using a by (simp add: shiftLeft_def copy_go_def Let_def n)
qed

lemma last_shiftLeft: "i < length out \<Longrightarrow> last (shiftLeft out i) = last out"
  by (simp add: shiftLeft_eq)

lemma take_shiftLeft: "i < length out \<Longrightarrow> take i (shiftLeft out i) = take i out"
  by (simp add: shiftLeft_eq)

lemma filterLoop_stuck_aux:
  assumes ret: "filterLoop target out i = Some r"
  shows "\<not> (0 \<le> i \<and> i < int (length out) \<and> \<not> matches target (last out))"
proof (rule filterLoop.raw_induct
    [where P = "\<lambda>target out i r. \<not> (0 \<le> i \<and> i < int (length out) \<and> \<not> matches target (last out))",
      OF _ ret])
  fix loop target out i r
  assume IH: "\<And>target out i r. loop target out i = Some r \<Longrightarrow>
      \<not> (0 \<le> i \<and> i < int (length out) \<and> \<not> matches target (last out))"
    and body: "(if i < int (length out) then
        (if filepath_Base (file_s (out ! nat i)) \<noteq> target
         then loop target (shiftLeft out (nat i)) ((i - 1) + 1)
         else loop target out (i + 1))
      else Some out) = Some r"
  show "\<not> (0 \<le> i \<and> i < int (length out) \<and> \<not> matches target (last out))"
  proof
    assume h: "0 \<le> i \<and> i < int (length out) \<and> \<not> matches target (last out)"
    then have i: "nat i < length out" by (auto simp: nat_less_iff)
    show False
    proof (cases "matches target (out ! nat i)")
      case True
      with h have "nat i \<noteq> length out - 1"
        by (metis i last_conv_nth length_greater_0_conv less_nat_zero_code list.size(3))
      with h have lt: "i + 1 < int (length out)" by linarith
      from body h True have "loop target out (i + 1) = Some r" by (simp add: matches_def)
      from IH[OF this] h lt show False by simp
    next
      case False
      with body h have "loop target (shiftLeft out (nat i)) i = Some r" by (simp add: matches_def)
      from IH[OF this] h i show False by (simp add: length_shiftLeft last_shiftLeft)
    qed
  qed
qed

lemma filterLoop_stuck:
  "0 \<le> i \<Longrightarrow> i < int (length out) \<Longrightarrow> \<not> matches target (last out) \<Longrightarrow>
   filterLoop target out i = None"
  using filterLoop_stuck_aux[of target out i] by (cases "filterLoop target out i") auto

lemma filterLoop_result:
  assumes ret: "filterLoop target out i = Some r"
  shows "0 \<le> i \<longrightarrow> length r = length out \<and> take (nat i) r = take (nat i) out \<and>
   (\<forall>k. nat i \<le> k \<and> k < length r \<longrightarrow> matches target (r ! k))"
proof (rule filterLoop.raw_induct
    [where P = "\<lambda>target out i r. 0 \<le> i \<longrightarrow> length r = length out \<and>
        take (nat i) r = take (nat i) out \<and>
        (\<forall>k. nat i \<le> k \<and> k < length r \<longrightarrow> matches target (r ! k))", OF _ ret])
  fix loop target out i r
  assume IH: "\<And>target out i r. loop target out i = Some r \<Longrightarrow>
      0 \<le> i \<longrightarrow> length r = length out \<and> take (nat i) r = take (nat i) out \<and>
        (\<forall>k. nat i \<le> k \<and> k < length r \<longrightarrow> matches target (r ! k))"
    and body: "(if i < int (length out) then
        (if filepath_Base (file_s (out ! nat i)) \<noteq> target
         then loop target (shiftLeft out (nat i)) ((i - 1) + 1)
         else loop target out (i + 1))
      else Some out) = Some r"
  show "0 \<le> i \<longrightarrow> length r = length out \<and> take (nat i) r = take (nat i) out \<and>
        (\<forall>k. nat i \<le> k \<and> k < length r \<longrightarrow> matches target (r ! k))"
  proof
    assume nonneg: "0 \<le> i"
    show "length r = length out \<and> take (nat i) r = take (nat i) out \<and>
        (\<forall>k. nat i \<le> k \<and> k < length r \<longrightarrow> matches target (r ! k))"
    proof (cases "i < int (length out)")
      case False
      with body have "r = out" by simp
      with False show ?thesis by auto
    next
      case lt: True
      then have i: "nat i < length out" using nonneg by (auto simp: nat_less_iff)
      show ?thesis
      proof (cases "matches target (out ! nat i)")
        case True
        with body lt have "loop target out (i + 1) = Some r" by (simp add: matches_def)
        from IH[OF this] nonneg
        have ih: "length r = length out" "take (nat (i + 1)) r = take (nat (i + 1)) out"
          "\<forall>k. nat (i + 1) \<le> k \<and> k < length r \<longrightarrow> matches target (r ! k)" by auto
        have s: "nat (i + 1) = Suc (nat i)" using nonneg by simp
        have "take (nat i) (take (Suc (nat i)) r) = take (nat i) (take (Suc (nat i)) out)"
          using ih(2) unfolding s by simp
        then have t: "take (nat i) r = take (nat i) out" by (simp add: min_def)
        have "take (Suc (nat i)) r ! nat i = take (Suc (nat i)) out ! nat i"
          using ih(2) unfolding s by simp
        then have e: "r ! nat i = out ! nat i" by simp
        have "matches target (r ! k)" if "nat i \<le> k" "k < length r" for k
        proof (cases "k = nat i")
          case True with e \<open>matches target (out ! nat i)\<close> show ?thesis by simp
        next
          case False with that ih(3) s show ?thesis by simp
        qed
        with ih(1) t show ?thesis by simp
      next
        case False
        with body lt have "loop target (shiftLeft out (nat i)) i = Some r" by (simp add: matches_def)
        from IH[OF this] nonneg i show ?thesis by (simp add: length_shiftLeft take_shiftLeft)
      qed
    qed
  qed
qed

lemma filterLoop_all_match:
  "0 \<le> i \<Longrightarrow> \<forall>k. nat i \<le> k \<and> k < length out \<longrightarrow> matches target (out ! k) \<Longrightarrow>
   filterLoop target out i = Some out"
proof (induction "length out - nat i" arbitrary: i)
  case 0
  then show ?case by (simp add: filterLoop_end)
next
  case (Suc n)
  then have lt: "i < int (length out)" by linarith
  with Suc have m: "matches target (out ! nat i)" by simp
  have "filterLoop target out (i + 1) = Some out"
  proof (rule Suc(1))
    show "n = length out - nat (i + 1)" using Suc(2,3) by linarith
    show "0 \<le> i + 1" using Suc(3) by simp
    show "\<forall>k. nat (i + 1) \<le> k \<and> k < length out \<longrightarrow> matches target (out ! k)"
      using Suc(3,4) by (simp add: nat_add_distrib)
  qed
  with lt m show ?case by (simp add: filterLoop_keep)
qed

lemma fileFilter_result:
  "fileFilter target out = Some r \<Longrightarrow> target \<noteq> [] \<Longrightarrow> length r = length out \<and> (\<forall>s \<in> set r. matches target s)"
  using filterLoop_result[of target out 0 r] by (auto simp: fileFilter_def in_set_conv_nth)

lemma fileFilter_fixed:
  "\<forall>s \<in> set out. matches target s \<Longrightarrow> fileFilter target out = Some out"
  using filterLoop_all_match[of 0 out target] by (simp add: fileFilter_def)


lemma fileFilter_stuck:
  "target \<noteq> [] \<Longrightarrow> out \<noteq> [] \<Longrightarrow> \<not> matches target (last out) \<Longrightarrow>
   fileFilter target out = None"
  by (simp add: fileFilter_def filterLoop_stuck)

lemma fileFilter_returned_is_fixed:
  assumes "fileFilter target out = Some r"
  shows "fileFilter target r = Some r"
proof (cases "target = []")
  case True
  then show ?thesis by (simp add: fileFilter_def)
next
  case False
  from fileFilter_result[OF assms False] show ?thesis by (simp add: fileFilter_fixed)
qed

subsection \<open>Claims about the file filter\<close>

text \<open>
  C1. The claim: for every list of symbols and every non-empty target the filter returns
  exactly the matching symbols, in order, none duplicated. The loop shifts the tail of the
  slice one place to the left when it drops a symbol, and never shortens the slice
  (\<open>out = out[:len(out)-1]\<close> is missing), so the last element stays behind as a copy:
  on the two symbols \<open>a\<close> of \<open>/src/other.go\<close> and \<open>b\<close> of \<open>/src/util.go\<close> with target
  \<open>util.go\<close> the code returns \<open>b\<close> twice, where the matching symbols are \<open>b\<close> once.
\<close>

theorem fileFilter_duplicates_last:
  "fileFilter ''util.go''
     [\<lparr>file_s = ''/src/other.go'', symbol = ''a'', content = []\<rparr>,
      \<lparr>file_s = ''/src/util.go'', symbol = ''b'', content = []\<rparr>]
   = Some [\<lparr>file_s = ''/src/util.go'', symbol = ''b'', content = []\<rparr>,
           \<lparr>file_s = ''/src/util.go'', symbol = ''b'', content = []\<rparr>]
   \<and> filter (matches ''util.go'')
     [\<lparr>file_s = ''/src/other.go'', symbol = ''a'', content = []\<rparr>,
      \<lparr>file_s = ''/src/util.go'', symbol = ''b'', content = []\<rparr>]
   = [\<lparr>file_s = ''/src/util.go'', symbol = ''b'', content = []\<rparr>]"
  by (simp add: fileFilter_def filterLoop_end filterLoop_keep filterLoop_drop matches_def
      filepath_Base_def shiftLeft_def copy_go_def)

text \<open>
  C2. The claim: the filter terminates on every input, in particular when the last symbol
  does not match the target. On the one-element list whose symbol is declared in
  \<open>/src/other.go\<close>, with target \<open>util.go\<close>, the loop never returns: the copy moves nothing,
  \<open>i--\<close> and \<open>i++\<close> leave \<open>i\<close> at 0, and \<open>len(out)\<close> stays 1.
\<close>

theorem fileFilter_never_returns:
  "fileFilter ''util.go'' [\<lparr>file_s = ''/src/other.go'', symbol = ''a'', content = []\<rparr>] = None"
  by (rule fileFilter_stuck) (simp_all add: matches_def filepath_Base_def)

text \<open>
  C4. The claim: for every list of symbols \<open>S\<close> and every target \<open>f\<close>, filtering twice
  gives the list that filtering once gives. On the one-element list whose symbol is declared
  in \<open>/src/other.go\<close>, with target \<open>util.go\<close>, the first application never returns (the
  loop of C2), so neither "filter" nor "filter, then filter again" produces a list: there
  is no result for the equation to hold of. (Where the first application does return a
  list, every symbol of it matches and a second application returns the same list; that is
  \<open>fileFilter_returned_is_fixed\<close> above.)
\<close>

theorem fileFilter_twice_never_returns:
  "fileFilter ''util.go'' [\<lparr>file_s = ''/src/other.go'', symbol = ''a'', content = []\<rparr>] = None
   \<and> Option.bind
       (fileFilter ''util.go'' [\<lparr>file_s = ''/src/other.go'', symbol = ''a'', content = []\<rparr>])
       (fileFilter ''util.go'') = None"
proof -
  have "fileFilter ''util.go'' [\<lparr>file_s = ''/src/other.go'', symbol = ''a'', content = []\<rparr>] = None"
    by (rule fileFilter_stuck) (simp_all add: matches_def filepath_Base_def)
  then show ?thesis by simp
qed


subsection \<open>Claims about the resolver\<close>

text \<open>
  C9. The resolve pass changes nothing but the alias: after a successful parse the pass
  returns (no instruction has an empty mnemonic, so \<open>c.instr[0]\<close> is in range), the symbols
  keep their file, their name and the number and order of their instructions, every
  instruction keeps all fields other than \<open>alias\<close>, and an instruction whose mnemonic does
  not begin with \<open>J\<close> is unchanged altogether.
\<close>

theorem resolve_frame:
  assumes "parse disasmOut = Inr (out, m)"
  shows "\<exists>out'. resolve m out = Inr out' \<and>
     list_all2 (\<lambda>s s'. file_s s' = file_s s \<and> symbol s' = symbol s \<and>
        list_all2 (\<lambda>c c'. c' = c\<lparr>alias_l := alias_l c'\<rparr> \<and> (instr c ! 0 \<noteq> CHR ''J'' \<longrightarrow> c' = c))
          (content s) (content s')) out out'"
proof (rule resolve_total)
  from parse_lines_wellformed[OF assms]
  show "\<forall>c \<in> set (linesOf out). instr c \<noteq> []" by blast
next
  fix c c' assume "resolveLine m c = Inr c'"
  then show "c' = c\<lparr>alias_l := alias_l c'\<rparr> \<and> (instr c ! 0 \<noteq> CHR ''J'' \<longrightarrow> c' = c)"
    by (rule resolveLine_frame)
qed

theorem resolve_frame_witness:
  "parse listing_jumps = Inr (listing_jumps_out, listing_jumps_index) \<and>
   resolve listing_jumps_index listing_jumps_out = Inr listing_jumps_resolved \<and>
   (\<exists>out'. resolve listing_jumps_index listing_jumps_out = Inr out' \<and>
     list_all2 (\<lambda>s s'. file_s s' = file_s s \<and> symbol s' = symbol s \<and>
        list_all2 (\<lambda>c c'. c' = c\<lparr>alias_l := alias_l c'\<rparr> \<and> (instr c ! 0 \<noteq> CHR ''J'' \<longrightarrow> c' = c))
          (content s) (content s')) listing_jumps_out out')"
  using resolve_frame [OF parse_listing_jumps] parse_listing_jumps resolve_listing_jumps
  by simp





subsection \<open>Claims about the parser\<close>

text \<open>
  C3. The claim: parsing and resolving are total, a violation of the grammar either yields
  records or a returned error, never a crash. The resolver half holds (after a successful
  parse no mnemonic is empty, see \<open>parse_lines_wellformed\<close>). The parser half does not:
  the results of \<open>strings.IndexByte\<close> are used as slice bounds without a test for \<open>-1\<close>.
  On a header followed by the line of two spaces and \<open>x\<close>, which has no colon, \<open>l[:i]\<close>
  is evaluated with \<open>i = -1\<close> and the program panics.
\<close>

theorem parse_panics_without_colon:
  "parse (''TEXT a b'' @ [CHR 0x0A] @ ''  x'') = Inl Panic \<and>
   getDisasm (''TEXT a b'' @ [CHR 0x0A] @ ''  x'') [] = Some (Inl Panic)"
proof -
  have "parse (''TEXT a b'' @ [CHR 0x0A] @ ''  x'') = Inl Panic"
    by (simp add: ev_parse ev_str cong: bind_r_weak_cong)
  then show ?thesis by (simp add: getDisasm_def)
qed

text \<open>
  C6, as the claim states it: every non-empty line that is not a header is rejected unless
  it begins with exactly two spaces and a symbol is open, so a line with three leading
  spaces is rejected. The test of the source is \<open>strings.HasPrefix(l, "  ")\<close>, which a line
  of three spaces passes: after a header, such a line is parsed into an instruction whose
  file starts with the third space.
\<close>

theorem parse_accepts_three_spaces:
  "parse (''TEXT a b'' @ [CHR 0x0A] @
          ''   x:1'' @ [CHR 0x09] @ ''16'' @ [CHR 0x09] @ ''ab'' @ [CHR 0x09] @ ''RET'')
   = Inr ([\<lparr>file_s = ''b'', symbol = ''a'', content =
            [\<lparr>file_l = '' x'', srcLine = 1, binOffset = 16, asm = ''ab'',
                decoded = ''RET'', instr = ''RET'', arg = [], alias_l = []\<rparr>]\<rparr>],
          [16 \<mapsto> '' x:1''])"
  by (simp add: ev_parse ev_str ev_num ev_trim cong: bind_r_weak_cong)

text \<open>
  C6, amended: when the lines before it have parsed, a non-empty line that is not a header
  and that does not begin with two spaces, or that comes while no symbol is open, makes
  the parse return the error "error decoding" of that line. (A line with more than two
  leading spaces begins with two spaces and is not rejected by this test.)
\<close>

theorem parse_rejects_line:
  assumes "strings_Split_nl disasmOut = ls @ l # rest"
    and "parseLines ([], Map.empty) ls = Inr st"
    and "l \<noteq> []" and "\<not> strings_HasPrefix l ''TEXT ''"
    and "\<not> strings_HasPrefix l ''  '' \<or> fst st = []"
  shows "parse disasmOut = Inl (ErrorDecoding l)"
proof -
  from assms(3,4,5) have "parseLine st l = Inl (ErrorDecoding l)"
    by (auto simp: parseLine_def)
  then have "parseLines st (l # rest) = Inl (ErrorDecoding l)" by simp
  with assms(2) have "parseLines ([], Map.empty) (ls @ l # rest) = Inl (ErrorDecoding l)"
    by (simp add: parseLines_append)
  with assms(1) show ?thesis by (simp add: parse_def)
qed

theorem parse_rejects_line_witness:
  "parse (''TEXT a b'' @ [CHR 0x0A] @ '' x:1'') = Inl (ErrorDecoding '' x:1'') \<and>
   parse (''  x:1'') = Inl (ErrorDecoding ''  x:1'')"
proof
  have "parseLines ([], Map.empty) [''TEXT a b'']
        = Inr ([\<lparr>file_s = ''b'', symbol = ''a'', content = []\<rparr>], Map.empty)"
    by (simp add: ev_parse ev_str cong: bind_r_weak_cong)
  from parse_rejects_line [of "''TEXT a b'' @ [CHR 0x0A] @ '' x:1''" "[''TEXT a b'']" "'' x:1''" "[]", OF _ this]
  show "parse (''TEXT a b'' @ [CHR 0x0A] @ '' x:1'') = Inl (ErrorDecoding '' x:1'')"
    by (simp add: strings_HasPrefix_def)
next
  have "parseLines ([], Map.empty) [] = Inr ([], Map.empty)" by simp
  from parse_rejects_line [of "''  x:1''" "[]" "''  x:1''" "[]", OF _ this]
  show "parse (''  x:1'') = Inl (ErrorDecoding ''  x:1'')"
    by (simp add: strings_HasPrefix_def)
qed






subsection \<open>Claims about the renderer\<close>

lemma instrWrite_not_blank: "instrWrite a c \<noteq> Fprint s" "Fprint s \<noteq> instrWrite a c"
  by (simp_all add: instrWrite_def)

text \<open>
  C10. When an instruction is printed (the loop body does not panic on the source line),
  exactly one blank line, \<open>fmt.Fprint(w, "\n")\<close>, is written if its decoded text begins
  with \<open>JMP\<close>, \<open>RET\<close> or \<open>UD2\<close> followed by a space, and it is the last thing written for
  the instruction; otherwise none is written. No other call of \<open>Fprint\<close> is made. The
  witness prints \<open>RET\<close>, with no separator, and \<open>RET 0x10\<close>, with one.
\<close>

theorem separator_rule:
  assumes "snd (printLine a lines lastLine c) \<noteq> Inl Panic"
  shows "count_list (fst (printLine a lines lastLine c)) (Fprint [CHR 0x0A]) =
           (if strings_HasPrefix (decoded c) ''JMP '' \<or> strings_HasPrefix (decoded c) ''RET '' \<or>
               strings_HasPrefix (decoded c) ''UD2 '' then 1 else 0) \<and>
         (strings_HasPrefix (decoded c) ''JMP '' \<or> strings_HasPrefix (decoded c) ''RET '' \<or>
          strings_HasPrefix (decoded c) ''UD2 ''
            \<longrightarrow> last (fst (printLine a lines lastLine c)) = Fprint [CHR 0x0A]) \<and>
         (\<forall>s. Fprint s \<in> set (fst (printLine a lines lastLine c)) \<longrightarrow> s = [CHR 0x0A])"
  using assms by (auto simp: printLine_def endsBlock_def instrWrite_not_blank)


theorem separator_rule_witness:
  "count_list (fst (printLine noColors [''func f() {''] 0
      \<lparr>file_l = ''x'', srcLine = 1, binOffset = 16, asm = ''c3'', decoded = ''RET'',
       instr = ''RET'', arg = [], alias_l = []\<rparr>)) (Fprint [CHR 0x0A]) = 0 \<and>
   count_list (fst (printLine noColors [''func f() {''] 0
      \<lparr>file_l = ''x'', srcLine = 1, binOffset = 16, asm = ''c21000'', decoded = ''RET 0x10'',
       instr = ''RET'', arg = ''0x10'', alias_l = []\<rparr>)) (Fprint [CHR 0x0A]) = 1"
proof -
  have 1: "snd (printLine noColors [''func f() {''] 0
      \<lparr>file_l = ''x'', srcLine = 1, binOffset = 16, asm = ''c3'', decoded = ''RET'',
       instr = ''RET'', arg = [], alias_l = []\<rparr>) \<noteq> Inl Panic"
    by (simp add: printLine_def)
  have 2: "snd (printLine noColors [''func f() {''] 0
      \<lparr>file_l = ''x'', srcLine = 1, binOffset = 16, asm = ''c21000'', decoded = ''RET 0x10'',
       instr = ''RET'', arg = ''0x10'', alias_l = []\<rparr>) \<noteq> Inl Panic"
    by (simp add: printLine_def)
  from separator_rule [OF 1] separator_rule [OF 2] show ?thesis
    by (simp add: strings_HasPrefix_def)
qed



subsection \<open>Facts about the sorts\<close>













end
